theory Spec2Isabelle
  imports Main "HOL-Library.Char_ord" "HOL-Library.List_Lexorder"
begin

section \<open>The graph store\<close>

text \<open>
  The handlers of \<^verbatim>\<open>app/main.py\<close> keep no state of their own: every endpoint
  sends one Cypher query to the graph store and reshapes the rows it gets back. The store
  is modelled as a property graph restricted to the two labels and three relationship
  types the queries mention. A node carries the identity the store gives it (a number
  that is never reused); a relationship is the pair of the identities of its start and
  end node, and the relationships of one type are a list, so that two parallel
  relationships between the same nodes are two entries.
\<close>

type_synonym node = nat

record user_node =
  u_node :: node
  u_id :: string
  u_username :: string
  u_name :: "string option"
  u_bio :: "string option"
  u_created_at :: string

record post_node =
  p_node :: node
  p_id :: string
  p_content :: string
  p_created_at :: string

record graph =
  users :: "user_node list"
  posts :: "post_node list"
  follows :: "(node \<times> node) list"
  posted :: "(node \<times> node) list"
  liked :: "(node \<times> node) list"
  next_node :: node
  username_unique :: bool
  post_id_unique :: bool

definition empty_graph :: graph where
  "empty_graph = \<lparr>users = [], posts = [], follows = [], posted = [], liked = [],
     next_node = 0, username_unique = False, post_id_unique = False\<rparr>"

text \<open>What can go wrong between the adapter and the store.\<close>

datatype store_error = ConstraintError | ServiceUnavailable | CypherSyntaxError | ArgumentError

text \<open>\<^verbatim>\<open>str(e)\<close> of a store error, as \<^verbatim>\<open>create_user\<close> puts it in the detail.\<close>

fun str_exc :: "store_error \<Rightarrow> string" where
  "str_exc ConstraintError = ''ConstraintError''"
| "str_exc ServiceUnavailable = ''ServiceUnavailable''"
| "str_exc CypherSyntaxError = ''CypherSyntaxError''"
| "str_exc ArgumentError = ''ArgumentError''"

section \<open>The schemas of \<^verbatim>\<open>app/schemas.py\<close> and the rows the queries return\<close>

record UserCreate =
  uc_username :: string
  uc_name :: "string option"
  uc_bio :: "string option"

record UserOut =
  uo_id :: string
  uo_username :: string
  uo_name :: "string option"
  uo_bio :: "string option"

record PostCreate =
  pc_author_username :: string
  pc_content :: string

record PostOut =
  po_id :: string
  po_author_username :: string
  po_content :: string
  po_created_at :: string

record FollowAction =
  follower_username :: string
  followee_username :: string

record LikeAction =
  la_username :: string
  la_post_id :: string

text \<open>The row of \<^verbatim>\<open>get_user\<close>: the public fields and the three counts.\<close>

record user_profile =
  up_id :: string
  up_username :: string
  up_name :: "string option"
  up_bio :: "string option"
  following_count :: nat
  followers_count :: nat
  posts_count :: nat

text \<open>The row of \<^verbatim>\<open>get_post\<close>.\<close>

record post_view =
  pv_id :: string
  pv_author_username :: string
  pv_content :: string
  pv_created_at :: string
  likes :: nat

record follow_row =
  follower :: string
  followee :: string

record like_row =
  lr_username :: string
  lr_post_id :: string

record deleted_row =
  deleted :: nat

text \<open>The bodies \<^verbatim>\<open>{"detail": ...}\<close> and \<^verbatim>\<open>{"detail": ..., "data": ...}\<close>.\<close>

record detail_body =
  detail :: string

record 'a detail_data = detail_body +
  data :: 'a

text \<open>
  What a handler ends with: a body with its status code, an \<^verbatim>\<open>HTTPException\<close> the
  handler raised itself, a store error nobody caught, or a body the response model
  refuses.
\<close>

datatype 'a response =
    Success nat 'a
  | HTTPException nat string
  | Unhandled store_error
  | ResponseValidationError

section \<open>The adapter of \<^verbatim>\<open>app/neo4j_driver.py\<close>\<close>

text \<open>
  \<^verbatim>\<open>session.run\<close> either fails before the query reaches the store (the first
  argument names the failure of this round trip) or runs the query. A read query maps
  the graph to its rows, a write query to its rows and the new graph; a query that the
  store rejects leaves the graph as it was. Neither method catches anything.
\<close>

definition execute_read ::
  "store_error option \<Rightarrow> (graph \<Rightarrow> store_error + 'r list) \<Rightarrow> graph \<Rightarrow> store_error + 'r list" where
  "execute_read net cypher g = (case net of Some e \<Rightarrow> Inl e | None \<Rightarrow> cypher g)"

definition execute_write ::
  "store_error option \<Rightarrow> (graph \<Rightarrow> store_error + 'r list \<times> graph) \<Rightarrow> graph
     \<Rightarrow> (store_error + 'r list) \<times> graph" where
  "execute_write net cypher g =
     (case net of
        Some e \<Rightarrow> (Inl e, g)
      | None \<Rightarrow> (case cypher g of Inl e \<Rightarrow> (Inl e, g) | Inr (records, g') \<Rightarrow> (Inr records, g')))"

definition single_or_none :: "'r list \<Rightarrow> 'r option" where
  "single_or_none records = (case records of [] \<Rightarrow> None | r # _ \<Rightarrow> Some r)"

section \<open>Pattern matching\<close>

text \<open>\<^verbatim>\<open>(u:User {username: $username})\<close>\<close>

definition match_user :: "graph \<Rightarrow> string \<Rightarrow> user_node list" where
  "match_user g username = filter (\<lambda>u. u_username u = username) (users g)"

text \<open>\<^verbatim>\<open>(p:Post {id: $id})\<close>\<close>

definition match_post :: "graph \<Rightarrow> string \<Rightarrow> post_node list" where
  "match_post g pid = filter (\<lambda>p. p_id p = pid) (posts g)"

definition is_user :: "graph \<Rightarrow> node \<Rightarrow> bool" where
  "is_user g n = (n \<in> set (map u_node (users g)))"

definition is_post :: "graph \<Rightarrow> node \<Rightarrow> bool" where
  "is_post g n = (n \<in> set (map p_node (posts g)))"

text \<open>The nodes with label User, and with label Post, that carry a given identity.\<close>

definition user_at :: "graph \<Rightarrow> node \<Rightarrow> user_node list" where
  "user_at g n = filter (\<lambda>u. u_node u = n) (users g)"

definition post_at :: "graph \<Rightarrow> node \<Rightarrow> post_node list" where
  "post_at g n = filter (\<lambda>p. p_node p = n) (posts g)"

section \<open>startup\<close>

text \<open>
  \<^verbatim>\<open>CREATE CONSTRAINT IF NOT EXISTS ... REQUIRE u.username IS UNIQUE\<close>: the store
  refuses to create a constraint that the data it holds already violates.
\<close>

definition constrain_username :: "graph \<Rightarrow> store_error + unit list \<times> graph" where
  "constrain_username g =
     (if username_unique g then Inr ([], g)
      else if distinct (map u_username (users g)) then Inr ([], g\<lparr>username_unique := True\<rparr>)
      else Inl ConstraintError)"

definition constrain_post_id :: "graph \<Rightarrow> store_error + unit list \<times> graph" where
  "constrain_post_id g =
     (if post_id_unique g then Inr ([], g)
      else if distinct (map p_id (posts g)) then Inr ([], g\<lparr>post_id_unique := True\<rparr>)
      else Inl ConstraintError)"

definition startup :: "store_error option \<Rightarrow> store_error option \<Rightarrow> graph \<Rightarrow> store_error + graph" where
  "startup net1 net2 g =
     (case execute_write net1 constrain_username g of
        (Inl e, _) \<Rightarrow> Inl e
      | (Inr _, g1) \<Rightarrow>
          (case execute_write net2 constrain_post_id g1 of
             (Inl e, _) \<Rightarrow> Inl e
           | (Inr _, g2) \<Rightarrow> Inr g2))"

section \<open>Users\<close>

text \<open>
  \<^verbatim>\<open>CREATE (u:User {id: $id, username: $username, name: $name, bio: $bio, created_at: $created_at})
  RETURN u.id AS id, u.username AS username, u.name AS name, u.bio AS bio\<close>

  A \<^verbatim>\<open>CREATE\<close> with no \<^verbatim>\<open>MATCH\<close> before it runs once and returns one row. The
  store refuses the node when the uniqueness constraint is declared and a User with
  that username is there already.
\<close>

definition create_user_cypher ::
  "string \<Rightarrow> string \<Rightarrow> string option \<Rightarrow> string option \<Rightarrow> string \<Rightarrow> graph
     \<Rightarrow> store_error + UserOut list \<times> graph" where
  "create_user_cypher uid username name bio created_at g =
     (if username_unique g \<and> username \<in> set (map u_username (users g)) then Inl ConstraintError
      else
        let u = \<lparr>u_node = next_node g, u_id = uid, u_username = username, u_name = name,
                 u_bio = bio, u_created_at = created_at\<rparr>
        in Inr ([\<lparr>uo_id = u_id u, uo_username = u_username u, uo_name = u_name u, uo_bio = u_bio u\<rparr>],
                g\<lparr>users := users g @ [u], next_node := Suc (next_node g)\<rparr>))"

text \<open>
  \<^verbatim>\<open>user_id\<close> and \<^verbatim>\<open>created_at\<close> are what \<^verbatim>\<open>uuid4()\<close> and
  \<^verbatim>\<open>datetime.utcnow().isoformat()\<close> gave this call. Every exception of the write
  becomes a 400.
\<close>

definition create_user ::
  "store_error option \<Rightarrow> string \<Rightarrow> string \<Rightarrow> UserCreate \<Rightarrow> graph \<Rightarrow> UserOut response \<times> graph" where
  "create_user net user_id created_at payload g =
     (case execute_write net
             (create_user_cypher user_id (uc_username payload) (uc_name payload) (uc_bio payload)
                created_at) g of
        (Inl e, g') \<Rightarrow> (HTTPException 400 (str_exc e), g')
      | (Inr records, g') \<Rightarrow>
          (case single_or_none records of
             None \<Rightarrow> (ResponseValidationError, g')
           | Some rec \<Rightarrow> (Success 201 rec, g')))"

text \<open>
  The end nodes of the FOLLOWS relationships that leave node \<open>n\<close> and reach a User, the
  start nodes of those that arrive at \<open>n\<close> from a User, and the Posts \<open>n\<close> has a
  POSTED relationship to: one entry per relationship.
\<close>

definition following :: "graph \<Rightarrow> node \<Rightarrow> node list" where
  "following g n = map snd (filter (\<lambda>e. fst e = n \<and> is_user g (snd e)) (follows g))"

definition followers :: "graph \<Rightarrow> node \<Rightarrow> node list" where
  "followers g n = map fst (filter (\<lambda>e. snd e = n \<and> is_user g (fst e)) (follows g))"

definition authored :: "graph \<Rightarrow> node \<Rightarrow> node list" where
  "authored g n = map snd (filter (\<lambda>e. fst e = n \<and> is_post g (snd e)) (posted g))"

definition public_fields :: "user_node \<Rightarrow> string \<times> string \<times> string option \<times> string option" where
  "public_fields u = (u_id u, u_username u, u_name u, u_bio u)"

text \<open>
  \<^verbatim>\<open>MATCH (u:User {username: $username})
  OPTIONAL MATCH (u)-[:FOLLOWS]->(f:User)
  OPTIONAL MATCH (g:User)-[:FOLLOWS]->(u)
  OPTIONAL MATCH (u)-[:POSTED]->(p:Post)
  RETURN u.id AS id, u.username AS username, u.name AS name, u.bio AS bio,
         count(DISTINCT f) AS following_count, count(DISTINCT g) AS followers_count,
         count(DISTINCT p) AS posts_count\<close>

  The four plain columns are the grouping key: one row per distinct key, and each count
  is over the distinct nodes bound in the rows of that group.
\<close>

definition get_user_cypher :: "string \<Rightarrow> graph \<Rightarrow> store_error + user_profile list" where
  "get_user_cypher username g =
     (let us = match_user g username
      in Inr (map (\<lambda>k.
                let grp = filter (\<lambda>u. public_fields u = k) us
                in \<lparr>up_id = fst k, up_username = fst (snd k), up_name = fst (snd (snd k)),
                    up_bio = snd (snd (snd k)),
                    following_count = length (remdups (concat (map (\<lambda>u. following g (u_node u)) grp))),
                    followers_count = length (remdups (concat (map (\<lambda>u. followers g (u_node u)) grp))),
                    posts_count = length (remdups (concat (map (\<lambda>u. authored g (u_node u)) grp)))\<rparr>)
              (remdups (map public_fields us))))"

definition get_user :: "store_error option \<Rightarrow> string \<Rightarrow> graph \<Rightarrow> user_profile response" where
  "get_user net username g =
     (case execute_read net (get_user_cypher username) g of
        Inl e \<Rightarrow> Unhandled e
      | Inr records \<Rightarrow>
          (case single_or_none records of
             None \<Rightarrow> HTTPException 404 ''User not found''
           | Some rec \<Rightarrow> Success 200 rec))"

section \<open>Follow and unfollow\<close>

text \<open>
  \<^verbatim>\<open>MERGE (a)-[r:T]->(b)\<close>, row by row: where relationships of the type run from
  \<open>a\<close> to \<open>b\<close> the row is bound once to each of them, and where none does one is
  created. A later row sees what an earlier one created.
\<close>

fun merge_rel :: "('r \<Rightarrow> node \<times> node) \<Rightarrow> 'r list \<Rightarrow> (node \<times> node) list \<Rightarrow> 'r list \<times> (node \<times> node) list" where
  "merge_rel ends [] es = ([], es)"
| "merge_rel ends (r # rs) es =
     (let k = count_list es (ends r)
      in if k = 0
         then (let (out, es') = merge_rel ends rs (es @ [ends r]) in (r # out, es'))
         else (let (out, es') = merge_rel ends rs es in (replicate k r @ out, es')))"

text \<open>
  \<^verbatim>\<open>MATCH (a:User {username: $a}), (b:User {username: $b})
  MERGE (a)-[r:FOLLOWS]->(b)
  RETURN a.username AS follower, b.username AS followee\<close>
\<close>

definition follow_cypher :: "string \<Rightarrow> string \<Rightarrow> graph \<Rightarrow> store_error + follow_row list \<times> graph" where
  "follow_cypher a b g =
     (let rows = [(ua, ub). ua \<leftarrow> match_user g a, ub \<leftarrow> match_user g b];
          (out, es) = merge_rel (\<lambda>(ua, ub). (u_node ua, u_node ub)) rows (follows g)
      in Inr (map (\<lambda>(ua, ub). \<lparr>follower = u_username ua, followee = u_username ub\<rparr>) out,
              g\<lparr>follows := es\<rparr>))"

definition follow ::
  "store_error option \<Rightarrow> FollowAction \<Rightarrow> graph \<Rightarrow> follow_row detail_data response \<times> graph" where
  "follow net action g =
     (case execute_write net
             (follow_cypher (follower_username action) (followee_username action)) g of
        (Inl e, g') \<Rightarrow> (Unhandled e, g')
      | (Inr records, g') \<Rightarrow>
          (case records of
             [] \<Rightarrow> (HTTPException 404 ''One or both users not found'', g')
           | r # _ \<Rightarrow> (Success 201 \<lparr>detail = ''OK'', data = r\<rparr>, g')))"

text \<open>
  The FOLLOWS relationships from a User named \<open>a\<close> to a User named \<open>b\<close>: what
  \<^verbatim>\<open>MATCH (a:User {username: $a})-[r:FOLLOWS]->(b:User {username: $b})\<close> binds \<open>r\<close> to.
\<close>

definition follows_between :: "graph \<Rightarrow> string \<Rightarrow> string \<Rightarrow> (node \<times> node) list" where
  "follows_between g a b =
     filter (\<lambda>e. fst e \<in> set (map u_node (match_user g a)) \<and>
                 snd e \<in> set (map u_node (match_user g b))) (follows g)"

text \<open>
  \<^verbatim>\<open>MATCH (a:User {username: $a})-[r:FOLLOWS]->(b:User {username: $b})
  DELETE r
  RETURN count(r) AS deleted\<close>

  With no grouping key the aggregate returns one row, also over no match.
\<close>

definition unfollow_cypher :: "string \<Rightarrow> string \<Rightarrow> graph \<Rightarrow> store_error + deleted_row list \<times> graph" where
  "unfollow_cypher a b g =
     (let rs = follows_between g a b
      in Inr ([\<lparr>deleted = length rs\<rparr>],
              g\<lparr>follows := filter (\<lambda>e. e \<notin> set rs) (follows g)\<rparr>))"

definition unfollow ::
  "store_error option \<Rightarrow> FollowAction \<Rightarrow> graph \<Rightarrow> detail_body response \<times> graph" where
  "unfollow net action g =
     (case execute_write net
             (unfollow_cypher (follower_username action) (followee_username action)) g of
        (Inl e, g') \<Rightarrow> (Unhandled e, g')
      | (Inr records, g') \<Rightarrow> (Success 200 \<lparr>detail = ''OK''\<rparr>, g'))"

section \<open>Posts\<close>

text \<open>
  \<^verbatim>\<open>MATCH (a:User {username: $author_username})
  CREATE (p:Post {id: $id, content: $content, created_at: $created_at})
  CREATE (a)-[:POSTED]->(p)
  RETURN p.id AS id, a.username AS author_username, p.content AS content, p.created_at AS created_at\<close>

  The two \<^verbatim>\<open>CREATE\<close> clauses run once per matched author. The store refuses a Post
  whose id is taken when the constraint on it is declared, and the query then fails as a
  whole.
\<close>

fun create_posts ::
  "string \<Rightarrow> string \<Rightarrow> string \<Rightarrow> user_node list \<Rightarrow> graph \<Rightarrow> store_error + PostOut list \<times> graph" where
  "create_posts pid content created_at [] g = Inr ([], g)"
| "create_posts pid content created_at (a # as) g =
     (if post_id_unique g \<and> pid \<in> set (map p_id (posts g)) then Inl ConstraintError
      else
        let p = \<lparr>p_node = next_node g, p_id = pid, p_content = content, p_created_at = created_at\<rparr>;
            g' = g\<lparr>posts := posts g @ [p], posted := posted g @ [(u_node a, p_node p)],
                   next_node := Suc (next_node g)\<rparr>
        in (case create_posts pid content created_at as g' of
              Inl e \<Rightarrow> Inl e
            | Inr (recs, g'') \<Rightarrow>
                Inr (\<lparr>po_id = p_id p, po_author_username = u_username a, po_content = p_content p,
                      po_created_at = p_created_at p\<rparr> # recs, g'')))"

definition create_post_cypher ::
  "string \<Rightarrow> string \<Rightarrow> string \<Rightarrow> string \<Rightarrow> graph \<Rightarrow> store_error + PostOut list \<times> graph" where
  "create_post_cypher pid content author_username created_at g =
     create_posts pid content created_at (match_user g author_username) g"

definition create_post ::
  "store_error option \<Rightarrow> string \<Rightarrow> string \<Rightarrow> PostCreate \<Rightarrow> graph \<Rightarrow> PostOut response \<times> graph" where
  "create_post net post_id created_at payload g =
     (case execute_write net
             (create_post_cypher post_id (pc_content payload) (pc_author_username payload)
                created_at) g of
        (Inl e, g') \<Rightarrow> (Unhandled e, g')
      | (Inr records, g') \<Rightarrow>
          (case single_or_none records of
             None \<Rightarrow> (HTTPException 404 ''Author not found'', g')
           | Some rec \<Rightarrow> (Success 201 rec, g')))"

text \<open>The LIKED relationships that arrive at node \<open>n\<close> from a User.\<close>

definition liked_by :: "graph \<Rightarrow> node \<Rightarrow> (node \<times> node) list" where
  "liked_by g n = filter (\<lambda>e. snd e = n \<and> is_user g (fst e)) (liked g)"

definition post_key :: "post_node \<times> user_node \<Rightarrow> string \<times> string \<times> string \<times> string" where
  "post_key r = (p_id (fst r), u_username (snd r), p_content (fst r), p_created_at (fst r))"

text \<open>
  \<^verbatim>\<open>MATCH (p:Post {id: $id})<-[:POSTED]-(a:User)
  OPTIONAL MATCH (u:User)-[:LIKED]->(p)
  RETURN p.id AS id, a.username AS author_username, p.content AS content, p.created_at AS created_at, count(u) AS likes\<close>

  One row per POSTED relationship into a matched Post; the four plain columns are the
  grouping key, and \<^verbatim>\<open>count(u)\<close> counts the rows of the group in which \<open>u\<close> is
  bound: one per LIKED relationship, parallel ones included.
\<close>

definition get_post_cypher :: "string \<Rightarrow> graph \<Rightarrow> store_error + post_view list" where
  "get_post_cypher pid g =
     (let rows = [(p, a). p \<leftarrow> match_post g pid, e \<leftarrow> posted g, snd e = p_node p,
                          a \<leftarrow> user_at g (fst e)]
      in Inr (map (\<lambda>k.
                \<lparr>pv_id = fst k, pv_author_username = fst (snd k), pv_content = fst (snd (snd k)),
                 pv_created_at = snd (snd (snd k)),
                 likes = sum_list (map (\<lambda>r. length (liked_by g (p_node (fst r))))
                                     (filter (\<lambda>r. post_key r = k) rows))\<rparr>)
              (remdups (map post_key rows))))"

definition get_post :: "store_error option \<Rightarrow> string \<Rightarrow> graph \<Rightarrow> post_view response" where
  "get_post net post_id g =
     (case execute_read net (get_post_cypher post_id) g of
        Inl e \<Rightarrow> Unhandled e
      | Inr records \<Rightarrow>
          (case single_or_none records of
             None \<Rightarrow> HTTPException 404 ''Post not found''
           | Some rec \<Rightarrow> Success 200 rec))"

text \<open>
  \<^verbatim>\<open>MATCH (u:User {username: $username}), (p:Post {id: $post_id})
  MERGE (u)-[:LIKED]->(p)
  RETURN u.username AS username, p.id AS post_id\<close>
\<close>

definition like_cypher :: "string \<Rightarrow> string \<Rightarrow> graph \<Rightarrow> store_error + like_row list \<times> graph" where
  "like_cypher username pid g =
     (let rows = [(u, p). u \<leftarrow> match_user g username, p \<leftarrow> match_post g pid];
          (out, es) = merge_rel (\<lambda>(u, p). (u_node u, p_node p)) rows (liked g)
      in Inr (map (\<lambda>(u, p). \<lparr>lr_username = u_username u, lr_post_id = p_id p\<rparr>) out,
              g\<lparr>liked := es\<rparr>))"

text \<open>The post id is the one of the path; the one in the body is not read.\<close>

definition like_post ::
  "store_error option \<Rightarrow> string \<Rightarrow> LikeAction \<Rightarrow> graph \<Rightarrow> like_row detail_data response \<times> graph" where
  "like_post net post_id payload g =
     (case execute_write net (like_cypher (la_username payload) post_id) g of
        (Inl e, g') \<Rightarrow> (Unhandled e, g')
      | (Inr records, g') \<Rightarrow>
          (case records of
             [] \<Rightarrow> (HTTPException 404 ''User or post not found'', g')
           | r # _ \<Rightarrow> (Success 200 \<lparr>detail = ''liked'', data = r\<rparr>, g')))"

section \<open>Feed\<close>

text \<open>
  What \<^verbatim>\<open>MATCH (me:User {username: $username})-[:FOLLOWS]->(other:User)-[:POSTED]->(p:Post)\<close>
  binds \<open>other\<close> and \<open>p\<close> to: one row per path. Cypher asks that the two
  relationships of a path differ, which a FOLLOWS and a POSTED relationship always do;
  it does not ask that \<open>me\<close> and \<open>other\<close> differ.
\<close>

definition feed_matches :: "graph \<Rightarrow> string \<Rightarrow> (user_node \<times> post_node) list" where
  "feed_matches g username =
     [(other, p). me \<leftarrow> match_user g username, e1 \<leftarrow> follows g, fst e1 = u_node me,
                  other \<leftarrow> user_at g (snd e1), e2 \<leftarrow> posted g, fst e2 = u_node other,
                  p \<leftarrow> post_at g (snd e2)]"

definition feed_row :: "user_node \<times> post_node \<Rightarrow> PostOut" where
  "feed_row r = \<lparr>po_id = p_id (snd r), po_author_username = u_username (fst r),
                 po_content = p_content (snd r), po_created_at = p_created_at (snd r)\<rparr>"

text \<open>
  \<^verbatim>\<open>ORDER BY p.created_at DESC\<close>: the timestamps are strings and the store compares
  strings character by character. The order among equal timestamps is the store's
  choice; here it is the reverse of the order of the matches.
\<close>

definition order_by_created_at_desc :: "PostOut list \<Rightarrow> PostOut list" where
  "order_by_created_at_desc rows = rev (sort_key po_created_at rows)"

text \<open>
  \<^verbatim>\<open>RETURN p.id AS id, other.username AS author_username, p.content AS content, p.created_at AS created_at
  ORDER BY p.created_at DESC
  LIMIT $limit\<close>

  The store rejects a negative \<^verbatim>\<open>LIMIT\<close>.
\<close>

definition feed_cypher :: "string \<Rightarrow> int \<Rightarrow> graph \<Rightarrow> store_error + PostOut list" where
  "feed_cypher username limit g =
     (if limit < 0 then Inl ArgumentError
      else Inr (take (nat limit) (order_by_created_at_desc (map feed_row (feed_matches g username)))))"

text \<open>\<^verbatim>\<open>limit: int = 20\<close>: the query parameter, 20 when the request has none.\<close>

definition get_feed :: "store_error option \<Rightarrow> string \<Rightarrow> int option \<Rightarrow> graph \<Rightarrow> PostOut list response" where
  "get_feed net username limit_param g =
     (let limit = (case limit_param of None \<Rightarrow> 20 | Some l \<Rightarrow> l)
      in case execute_read net (feed_cypher username limit) g of
           Inl e \<Rightarrow> Unhandled e
         | Inr records \<Rightarrow> Success 200 records)"

section \<open>Observations on the store\<close>

definition user_exists :: "graph \<Rightarrow> string \<Rightarrow> bool" where
  "user_exists g username = (username \<in> set (map u_username (users g)))"

definition post_exists :: "graph \<Rightarrow> string \<Rightarrow> bool" where
  "post_exists g pid = (pid \<in> set (map p_id (posts g)))"

text \<open>The LIKED relationships from a User named \<open>username\<close> to a Post with id \<open>pid\<close>.\<close>

definition liked_between :: "graph \<Rightarrow> string \<Rightarrow> string \<Rightarrow> (node \<times> node) list" where
  "liked_between g username pid =
     filter (\<lambda>e. fst e \<in> set (map u_node (match_user g username)) \<and>
                 snd e \<in> set (map p_node (match_post g pid))) (liked g)"

text \<open>The Users that have a LIKED relationship to a Post with id \<open>pid\<close>.\<close>

definition likers :: "graph \<Rightarrow> string \<Rightarrow> node set" where
  "likers g pid = set (concat (map (\<lambda>p. map fst (liked_by g (p_node p))) (match_post g pid)))"

text \<open>
  The posts of the users that a user named \<open>username\<close> follows: a User \<open>other\<close> with a
  FOLLOWS relationship from a User of that name, and a Post with a POSTED relationship
  from \<open>other\<close>.
\<close>

definition followee_posts :: "graph \<Rightarrow> string \<Rightarrow> (user_node \<times> post_node) set" where
  "followee_posts g username =
     set [(other, p). other \<leftarrow> users g, p \<leftarrow> posts g,
            \<exists>me \<in> set (match_user g username). (u_node me, u_node other) \<in> set (follows g),
            (u_node other, p_node p) \<in> set (posted g)]"

definition limit_of :: "int option \<Rightarrow> int" where
  "limit_of limit_param = (case limit_param of None \<Rightarrow> 20 | Some l \<Rightarrow> l)"


subsection \<open>The states the handlers keep the store in\<close>

text \<open>
  Node identities are distinct and below the next one to be given out; both constraints
  are declared and hold; no FOLLOWS or LIKED relationship has a parallel one; every
  relationship joins nodes of the right labels; every Post has one POSTED relationship.
\<close>

definition nodes_ok :: "graph \<Rightarrow> bool" where
  "nodes_ok g \<longleftrightarrow>
     distinct (map u_node (users g) @ map p_node (posts g)) \<and>
     (\<forall>n \<in> set (map u_node (users g) @ map p_node (posts g)). n < next_node g)"

definition keys_ok :: "graph \<Rightarrow> bool" where
  "keys_ok g \<longleftrightarrow>
     username_unique g \<and> post_id_unique g \<and>
     distinct (map u_username (users g)) \<and> distinct (map p_id (posts g))"

definition rels_ok :: "graph \<Rightarrow> bool" where
  "rels_ok g \<longleftrightarrow>
     distinct (follows g) \<and> distinct (liked g) \<and> distinct (map snd (posted g)) \<and>
     (\<forall>e \<in> set (follows g). is_user g (fst e) \<and> is_user g (snd e)) \<and>
     (\<forall>e \<in> set (posted g). is_user g (fst e) \<and> is_post g (snd e)) \<and>
     (\<forall>e \<in> set (liked g). is_user g (fst e) \<and> is_post g (snd e)) \<and>
     (\<forall>p \<in> set (posts g). p_node p \<in> set (map snd (posted g)))"

definition wf :: "graph \<Rightarrow> bool" where
  "wf g \<longleftrightarrow> nodes_ok g \<and> keys_ok g \<and> rels_ok g"

text \<open>The stores that the handlers make of an empty one, whatever the requests.\<close>

inductive reachable :: "graph \<Rightarrow> bool" where
  started: "startup n1 n2 empty_graph = Inr g \<Longrightarrow> reachable g"
| restarted: "reachable g \<Longrightarrow> startup n1 n2 g = Inr g' \<Longrightarrow> reachable g'"
| created_user: "reachable g \<Longrightarrow> reachable (snd (create_user net uid t payload g))"
| followed: "reachable g \<Longrightarrow> reachable (snd (follow net action g))"
| unfollowed: "reachable g \<Longrightarrow> reachable (snd (unfollow net action g))"
| created_post: "reachable g \<Longrightarrow> reachable (snd (create_post net pid t post g))"
| liked_post: "reachable g \<Longrightarrow> reachable (snd (like_post net pid like g))"

subsection \<open>Two stores to evaluate on\<close>

text \<open>
  alice and bob, bob follows alice, alice has posted once.
\<close>

definition alice :: user_node where
  "alice = \<lparr>u_node = 0, u_id = ''id-a'', u_username = ''alice'', u_name = None, u_bio = None,
            u_created_at = ''2024-01-01T00:00:00''\<rparr>"

definition bob :: user_node where
  "bob = \<lparr>u_node = 1, u_id = ''id-b'', u_username = ''bob'', u_name = Some ''Bob'', u_bio = None,
          u_created_at = ''2024-01-01T00:00:01''\<rparr>"

definition hello :: post_node where
  "hello = \<lparr>p_node = 2, p_id = ''p1'', p_content = ''hello world'',
            p_created_at = ''2024-01-02T00:00:00''\<rparr>"

definition demo :: graph where
  "demo = \<lparr>users = [alice, bob], posts = [hello], follows = [(1, 0)], posted = [(0, 2)],
           liked = [], next_node = 3, username_unique = True, post_id_unique = True\<rparr>"

text \<open>alice alone, following herself, with one post.\<close>

definition selfie :: graph where
  "selfie = \<lparr>users = [alice], posts = [hello\<lparr>p_node := 1\<rparr>], follows = [(0, 0)], posted = [(0, 1)],
             liked = [], next_node = 2, username_unique = True, post_id_unique = True\<rparr>"

section \<open>Rows of a query that matches nothing\<close>













section \<open>Store failures\<close>



section \<open>Unfollow\<close>

lemma unfollow_result:
  "unfollow None action g =
     (Success 200 \<lparr>detail = ''OK''\<rparr>,
      g\<lparr>follows := filter (\<lambda>e. e \<notin> set (follows_between g (follower_username action)
                                           (followee_username action))) (follows g)\<rparr>)"
  by (simp add: unfollow_def execute_write_def unfollow_cypher_def Let_def)

lemma match_user_follows_update [simp]: "match_user (g\<lparr>follows := es\<rparr>) a = match_user g a"
  by (simp add: match_user_def)

lemma follows_between_removed:
  "follows_between (g\<lparr>follows := filter (\<lambda>e. e \<notin> set (follows_between g a b)) (follows g)\<rparr>) a b = []"
  by (auto simp: follows_between_def filter_empty_conv)

text \<open>
  C8. Unfollow answers 200 with the body \<open>{"detail": "OK"}\<close> whatever the store
  holds; afterwards no FOLLOWS relationship runs between the pair, every other
  relationship is still there, and where none ran between them the store is unchanged.
\<close>

theorem unfollow_lenient:
  "fst (unfollow None action g) = Success 200 \<lparr>detail = ''OK''\<rparr>
   \<and> follows_between (snd (unfollow None action g))
        (follower_username action) (followee_username action) = []
   \<and> snd (unfollow None action g)
       = g\<lparr>follows := filter (\<lambda>e. e \<notin> set (follows_between g (follower_username action)
                                              (followee_username action))) (follows g)\<rparr>
   \<and> (follows_between g (follower_username action) (followee_username action) = []
        \<longrightarrow> unfollow None action g = (Success 200 \<lparr>detail = ''OK''\<rparr>, g))"
  by (simp add: unfollow_result follows_between_removed)

theorem unfollow_lenient_witness:
  "follows_between demo ''alice'' ''bob'' = []
   \<and> unfollow None \<lparr>follower_username = ''alice'', followee_username = ''bob''\<rparr> demo
       = (Success 200 \<lparr>detail = ''OK''\<rparr>, demo)
   \<and> follows_between demo ''bob'' ''alice'' = [(1, 0)]
   \<and> unfollow None \<lparr>follower_username = ''bob'', followee_username = ''alice''\<rparr> demo
       = (Success 200 \<lparr>detail = ''OK''\<rparr>, demo\<lparr>follows := []\<rparr>)"
proof -
  have none: "follows_between demo ''alice'' ''bob'' = []" by code_simp
  have one: "follows_between demo ''bob'' ''alice'' = [(1, 0)]" by code_simp
  have fs: "follows demo = [(1, 0)]" by (simp add: demo_def)
  have a: "unfollow None \<lparr>follower_username = ''alice'', followee_username = ''bob''\<rparr> demo
       = (Success 200 \<lparr>detail = ''OK''\<rparr>, demo)"
    using unfollow_lenient [of "\<lparr>follower_username = ''alice'', followee_username = ''bob''\<rparr>" demo] none
    by simp
  have b: "unfollow None \<lparr>follower_username = ''bob'', followee_username = ''alice''\<rparr> demo
       = (Success 200 \<lparr>detail = ''OK''\<rparr>, demo\<lparr>follows := []\<rparr>)"
    using unfollow_lenient [of "\<lparr>follower_username = ''bob'', followee_username = ''alice''\<rparr>" demo] one fs
    by (simp add: prod_eq_iff)
  show ?thesis using none one a b by simp
qed

section \<open>Feed\<close>

lemma followee_posts_iff:
  "(other, p) \<in> followee_posts g username \<longleftrightarrow>
     other \<in> set (users g) \<and> p \<in> set (posts g) \<and>
     (\<exists>me \<in> set (match_user g username). (u_node me, u_node other) \<in> set (follows g)) \<and>
     (u_node other, p_node p) \<in> set (posted g)"
  by (auto simp: followee_posts_def)

lemma set_feed_matches: "set (feed_matches g username) = followee_posts g username"
proof (rule set_eqI)
  fix x :: "user_node \<times> post_node"
  obtain other p where x: "x = (other, p)" by (cases x)
  have "(other, p) \<in> set (feed_matches g username) \<longleftrightarrow> (other, p) \<in> followee_posts g username"
    unfolding followee_posts_iff
    by (force simp: feed_matches_def user_at_def post_at_def)
  then show "x \<in> set (feed_matches g username) \<longleftrightarrow> x \<in> followee_posts g username"
    by (simp add: x)
qed


lemma set_order_by [simp]: "set (order_by_created_at_desc rows) = set rows"
  by (simp add: order_by_created_at_desc_def)

lemma length_order_by [simp]: "length (order_by_created_at_desc rows) = length rows"
  by (simp add: order_by_created_at_desc_def)



lemma get_feed_rows:
  "0 \<le> limit_of limit_param \<Longrightarrow>
   get_feed None username limit_param g =
     Success 200 (take (nat (limit_of limit_param))
                    (order_by_created_at_desc (map feed_row (feed_matches g username))))"
  by (simp add: get_feed_def limit_of_def execute_read_def feed_cypher_def)

lemma get_feed_negative:
  "limit_of limit_param < 0 \<Longrightarrow> get_feed None username limit_param g = Unhandled ArgumentError"
  by (simp add: get_feed_def limit_of_def execute_read_def feed_cypher_def)









lemma feed_row_author [simp]: "po_author_username (feed_row (other, p)) = u_username other"
  by (simp add: feed_row_def)

lemma no_self_follow_no_own_row:
  assumes "follows_between g username username = []"
    and "(other, p) \<in> followee_posts g username"
  shows "u_username other \<noteq> username"
proof
  assume same: "u_username other = username"
  from assms(2) obtain me where me: "me \<in> set (match_user g username)"
    and e: "(u_node me, u_node other) \<in> set (follows g)" and o: "other \<in> set (users g)"
    by (auto simp: followee_posts_iff)
  from o same have "other \<in> set (match_user g username)"
    by (simp add: match_user_def)
  with me e have "(u_node me, u_node other) \<in> set (follows_between g username username)"
    by (simp add: follows_between_def)
  with assms(1) show False by simp
qed

text \<open>
  C7, as the code has it. The feed of a user who has no FOLLOWS relationship to
  themself holds no post of their own: no row carries their username as author.
\<close>

theorem feed_excludes_own_posts:
  assumes "follows_between g username username = []"
    and "get_feed None username limit_param g = Success c rows"
  shows "\<forall>r \<in> set rows. po_author_username r \<noteq> username"
proof (cases "0 \<le> limit_of limit_param")
  case True
  then have "rows = take (nat (limit_of limit_param))
                      (order_by_created_at_desc (map feed_row (feed_matches g username)))"
    using assms(2) by (simp add: get_feed_rows)
  then have "set rows \<subseteq> feed_row ` followee_posts g username"
    using set_take_subset [of "nat (limit_of limit_param)"
        "order_by_created_at_desc (map feed_row (feed_matches g username))"]
    by (simp add: set_feed_matches)
  then show ?thesis
    using no_self_follow_no_own_row [OF assms(1)] by fastforce
next
  case False
  then show ?thesis using assms(2) by (simp add: get_feed_negative)
qed

theorem feed_excludes_own_posts_witness:
  "follows_between demo ''bob'' ''bob'' = []
   \<and> get_feed None ''bob'' None demo = Success 200 [feed_row (alice, hello)]
   \<and> po_author_username (feed_row (alice, hello)) \<noteq> ''bob''"
proof -
  have n: "follows_between demo ''bob'' ''bob'' = []" by code_simp
  have f: "get_feed None ''bob'' None demo = Success 200 [feed_row (alice, hello)]" by code_simp
  show ?thesis
    using n f feed_excludes_own_posts [OF n f] by simp
qed

text \<open>
  C7 as the claim has it fails: alice signs up, follows herself and posts; her feed
  then holds her own post.
\<close>

theorem feed_holds_own_post_after_self_follow:
  "snd (create_post None ''p1'' ''2024-01-02T00:00:00''
          \<lparr>pc_author_username = ''alice'', pc_content = ''hello world''\<rparr>
          (snd (follow None \<lparr>follower_username = ''alice'', followee_username = ''alice''\<rparr>
             (snd (create_user None ''id-a'' ''2024-01-01T00:00:00''
                     \<lparr>uc_username = ''alice'', uc_name = None, uc_bio = None\<rparr>
                     (empty_graph\<lparr>username_unique := True, post_id_unique := True\<rparr>)))))) = selfie
   \<and> get_feed None ''alice'' None selfie
       = Success 200 [\<lparr>po_id = ''p1'', po_author_username = ''alice'', po_content = ''hello world'',
                        po_created_at = ''2024-01-02T00:00:00''\<rparr>]"
  by code_simp

section \<open>Creating a user\<close>

lemma startup_constraints:
  assumes "startup n1 n2 g0 = Inr g"
  shows "username_unique g \<and> post_id_unique g \<and> users g = users g0 \<and> posts g = posts g0
         \<and> follows g = follows g0 \<and> posted g = posted g0 \<and> liked g = liked g0
         \<and> next_node g = next_node g0"
  using assms
  by (auto simp: startup_def execute_write_def constrain_username_def constrain_post_id_def
      split: option.splits if_splits)

lemma startup_empty:
  "startup None None empty_graph = Inr (empty_graph\<lparr>username_unique := True, post_id_unique := True\<rparr>)"
  by (simp add: startup_def execute_write_def constrain_username_def constrain_post_id_def
      empty_graph_def)

lemma create_user_fresh:
  assumes "\<not> user_exists g (uc_username payload)"
  shows "create_user None uid t payload g =
           (Success 201 \<lparr>uo_id = uid, uo_username = uc_username payload, uo_name = uc_name payload,
                         uo_bio = uc_bio payload\<rparr>,
            g\<lparr>users := users g @ [\<lparr>u_node = next_node g, u_id = uid, u_username = uc_username payload,
                                   u_name = uc_name payload, u_bio = uc_bio payload, u_created_at = t\<rparr>],
              next_node := Suc (next_node g)\<rparr>)"
  using assms
  by (simp add: create_user_def execute_write_def create_user_cypher_def single_or_none_def
      user_exists_def Let_def)

lemma create_user_taken:
  assumes "username_unique g" and "user_exists g (uc_username payload)"
  shows "create_user None uid t payload g = (HTTPException 400 (str_exc ConstraintError), g)"
  using assms
  by (simp add: create_user_def execute_write_def create_user_cypher_def user_exists_def)

lemma create_user_unconstrained:
  assumes "\<not> username_unique g"
  shows "fst (create_user None uid t payload g) =
           Success 201 \<lparr>uo_id = uid, uo_username = uc_username payload, uo_name = uc_name payload,
                         uo_bio = uc_bio payload\<rparr>"
  using assms
  by (simp add: create_user_def execute_write_def create_user_cypher_def single_or_none_def Let_def)

text \<open>
  C4. In a store that startup has declared the constraints on, creating a user under a
  username that is free answers 201 with id, username, name and bio, and creating a user
  under the same username again, whatever the other fields, answers 400 and adds
  nothing. It is the constraint that refuses the second: the query itself does not look
  for the username, and with no constraint declared it would answer 201 again.
\<close>

theorem create_user_twice:
  assumes "startup n1 n2 g0 = Inr g"
    and "\<not> user_exists g (uc_username first)"
    and "uc_username second = uc_username first"
    and "create_user None uid1 t1 first g = (r1, g1)"
    and "create_user None uid2 t2 second g1 = (r2, g2)"
  shows "r1 = Success 201 \<lparr>uo_id = uid1, uo_username = uc_username first, uo_name = uc_name first,
                           uo_bio = uc_bio first\<rparr>
       \<and> r2 = HTTPException 400 (str_exc ConstraintError)
       \<and> g2 = g1
       \<and> length (match_user g1 (uc_username first)) = 1
       \<and> fst (create_user None uid2 t2 second (g1\<lparr>username_unique := False\<rparr>))
           = Success 201 \<lparr>uo_id = uid2, uo_username = uc_username second, uo_name = uc_name second,
                          uo_bio = uc_bio second\<rparr>"
proof -
  have uq: "username_unique g"
    using startup_constraints [OF assms(1)] by simp
  have first: "create_user None uid1 t1 first g =
      (Success 201 \<lparr>uo_id = uid1, uo_username = uc_username first, uo_name = uc_name first,
                    uo_bio = uc_bio first\<rparr>,
       g\<lparr>users := users g @ [\<lparr>u_node = next_node g, u_id = uid1, u_username = uc_username first,
                              u_name = uc_name first, u_bio = uc_bio first, u_created_at = t1\<rparr>],
         next_node := Suc (next_node g)\<rparr>)"
    using assms(2) by (rule create_user_fresh)
  with assms(4) have r1: "r1 = Success 201 \<lparr>uo_id = uid1, uo_username = uc_username first,
      uo_name = uc_name first, uo_bio = uc_bio first\<rparr>"
    and g1: "g1 = g\<lparr>users := users g @ [\<lparr>u_node = next_node g, u_id = uid1,
        u_username = uc_username first, u_name = uc_name first, u_bio = uc_bio first,
        u_created_at = t1\<rparr>], next_node := Suc (next_node g)\<rparr>"
    by simp_all
  have uq1: "username_unique g1" and ex1: "user_exists g1 (uc_username second)"
    using uq assms(3) by (simp_all add: g1 user_exists_def)
  have "create_user None uid2 t2 second g1 = (HTTPException 400 (str_exc ConstraintError), g1)"
    using uq1 ex1 by (rule create_user_taken)
  with assms(5) have r2: "r2 = HTTPException 400 (str_exc ConstraintError)" and g2: "g2 = g1"
    by simp_all
  have one: "length (match_user g1 (uc_username first)) = 1"
    using assms(2) by (force simp: g1 match_user_def user_exists_def filter_empty_conv)
  have off: "fst (create_user None uid2 t2 second (g1\<lparr>username_unique := False\<rparr>))
      = Success 201 \<lparr>uo_id = uid2, uo_username = uc_username second, uo_name = uc_name second,
                     uo_bio = uc_bio second\<rparr>"
    by (rule create_user_unconstrained) simp
  show ?thesis using r1 r2 g2 one off by simp
qed

theorem create_user_twice_witness:
  "startup None None empty_graph = Inr (empty_graph\<lparr>username_unique := True, post_id_unique := True\<rparr>)
   \<and> \<not> user_exists (empty_graph\<lparr>username_unique := True, post_id_unique := True\<rparr>) ''alice''
   \<and> fst (create_user None ''id-a'' ''2024-01-01T00:00:00''
            \<lparr>uc_username = ''alice'', uc_name = None, uc_bio = None\<rparr>
            (empty_graph\<lparr>username_unique := True, post_id_unique := True\<rparr>))
       = Success 201 \<lparr>uo_id = ''id-a'', uo_username = ''alice'', uo_name = None, uo_bio = None\<rparr>
   \<and> fst (create_user None ''id-x'' ''2024-01-05T00:00:00''
            \<lparr>uc_username = ''alice'', uc_name = Some ''Al'', uc_bio = None\<rparr>
            (snd (create_user None ''id-a'' ''2024-01-01T00:00:00''
                    \<lparr>uc_username = ''alice'', uc_name = None, uc_bio = None\<rparr>
                    (empty_graph\<lparr>username_unique := True, post_id_unique := True\<rparr>))))
       = HTTPException 400 ''ConstraintError''"
proof -
  let ?g = "empty_graph\<lparr>username_unique := True, post_id_unique := True\<rparr>"
  let ?p1 = "\<lparr>uc_username = ''alice'', uc_name = None, uc_bio = None\<rparr>"
  let ?p2 = "\<lparr>uc_username = ''alice'', uc_name = Some ''Al'', uc_bio = None\<rparr>"
  have s: "startup None None empty_graph = Inr ?g" by (rule startup_empty)
  have n: "\<not> user_exists ?g ''alice''" by (simp add: user_exists_def empty_graph_def)
  have n': "\<not> user_exists ?g (uc_username ?p1)" using n by simp
  have e: "uc_username ?p2 = uc_username ?p1" by simp
  show ?thesis
    using s n
      create_user_twice [OF s n' e surjective_pairing surjective_pairing,
        of "''id-a''" "''2024-01-01T00:00:00''" "''id-x''" "''2024-01-05T00:00:00''"]
    by simp
qed

section \<open>Follow\<close>

lemma filter_key_unique:
  "distinct (map f xs) \<Longrightarrow> x \<in> set xs \<Longrightarrow> filter (\<lambda>y. f y = f x) xs = [x]"
proof (induction xs)
  case Nil
  then show ?case by simp
next
  case (Cons y ys)
  show ?case
  proof (cases "y = x")
    case True
    with Cons.prems have "f x \<notin> f ` set ys" by simp
    then have "\<forall>z \<in> set ys. f z \<noteq> f x" by (metis imageI)
    then have "filter (\<lambda>z. f z = f x) ys = []" by (simp add: filter_empty_conv)
    with True show ?thesis by simp
  next
    case False
    with Cons.prems have "x \<in> set ys" by simp
    moreover from this Cons.prems have "f y \<noteq> f x" by force
    ultimately show ?thesis using Cons by simp
  qed
qed

lemma wf_usernames: "wf g \<Longrightarrow> distinct (map u_username (users g))"
  by (simp add: wf_def keys_ok_def)

lemma wf_post_ids: "wf g \<Longrightarrow> distinct (map p_id (posts g))"
  by (simp add: wf_def keys_ok_def)

lemma wf_follows: "wf g \<Longrightarrow> distinct (follows g)"
  by (simp add: wf_def rels_ok_def)

lemma wf_liked: "wf g \<Longrightarrow> distinct (liked g)"
  by (simp add: wf_def rels_ok_def)

lemma match_user_unique:
  "distinct (map u_username (users g)) \<Longrightarrow> u \<in> set (users g) \<Longrightarrow> match_user g (u_username u) = [u]"
  unfolding match_user_def by (rule filter_key_unique)

lemma match_post_unique:
  "distinct (map p_id (posts g)) \<Longrightarrow> p \<in> set (posts g) \<Longrightarrow> match_post g (p_id p) = [p]"
  unfolding match_post_def by (rule filter_key_unique)

lemma user_exists_obtain:
  assumes "user_exists g a"
  obtains u where "u \<in> set (users g)" and "u_username u = a"
  using assms by (auto simp: user_exists_def)

lemma post_exists_obtain:
  assumes "post_exists g pid"
  obtains p where "p \<in> set (posts g)" and "p_id p = pid"
  using assms by (auto simp: post_exists_def)

lemma merge_rel_single:
  "merge_rel ends [r] es =
     (if ends r \<in> set es then (replicate (count_list es (ends r)) r, es) else ([r], es @ [ends r]))"
  by (simp add: count_list_0_iff Let_def)

lemma replicate_count_Cons:
  "x \<in> set es \<Longrightarrow> \<exists>rest. replicate (count_list es x) r = r # rest"
  by (cases "count_list es x") (simp_all add: count_list_0_iff)

lemma follow_single:
  assumes "match_user g a = [ua]" and "match_user g b = [ub]"
  shows "follow None \<lparr>follower_username = a, followee_username = b\<rparr> g =
           (Success 201 \<lparr>detail = ''OK'', data = \<lparr>follower = a, followee = b\<rparr>\<rparr>,
            if (u_node ua, u_node ub) \<in> set (follows g) then g
            else g\<lparr>follows := follows g @ [(u_node ua, u_node ub)]\<rparr>)"
proof -
  have "ua \<in> set (match_user g a)" and "ub \<in> set (match_user g b)"
    using assms by simp_all
  then have names: "u_username ua = a" "u_username ub = b"
    by (simp_all add: match_user_def)
  show ?thesis
  proof (cases "(u_node ua, u_node ub) \<in> set (follows g)")
    case True
    then obtain rest where
      "replicate (count_list (follows g) (u_node ua, u_node ub)) (ua, ub) = (ua, ub) # rest"
      using replicate_count_Cons [OF True, of "(ua, ub)"] by auto
    with True show ?thesis
      by (simp add: follow_def execute_write_def follow_cypher_def assms merge_rel_single names
          del: merge_rel.simps)
  next
    case False
    then show ?thesis
      by (simp add: follow_def execute_write_def follow_cypher_def assms merge_rel_single names
          del: merge_rel.simps)
  qed
qed

lemma follows_between_single:
  assumes "match_user g a = [ua]" and "match_user g b = [ub]"
  shows "follows_between g a b = filter ((=) (u_node ua, u_node ub)) (follows g)"
  unfolding follows_between_def assms
  by (rule filter_cong) auto

lemma filter_eq_distinct:
  "distinct xs \<Longrightarrow> filter ((=) x) xs = (if x \<in> set xs then [x] else [])"
  by (induction xs) auto

text \<open>
  C1. In a store the handlers have kept, with both users there, following twice answers
  201 with the pair both times, the second call changes nothing, and exactly one
  FOLLOWS relationship runs from the follower to the followee afterwards.
\<close>

theorem follow_twice_one_edge:
  assumes "wf g"
    and "user_exists g (follower_username action)"
    and "user_exists g (followee_username action)"
    and "follow None action g = (r1, g1)"
    and "follow None action g1 = (r2, g2)"
  shows "r1 = Success 201 \<lparr>detail = ''OK'',
                           data = \<lparr>follower = follower_username action,
                                   followee = followee_username action\<rparr>\<rparr>
       \<and> r2 = r1
       \<and> g2 = g1
       \<and> length (follows_between g2 (follower_username action) (followee_username action)) = 1"
proof -
  let ?a = "follower_username action" and ?b = "followee_username action"
  have act: "action = \<lparr>follower_username = ?a, followee_username = ?b\<rparr>" by simp
  from assms(2) obtain ua where ua: "ua \<in> set (users g)" "u_username ua = ?a"
    by (rule user_exists_obtain)
  from assms(3) obtain ub where ub: "ub \<in> set (users g)" "u_username ub = ?b"
    by (rule user_exists_obtain)
  have ma: "match_user g ?a = [ua]"
    using match_user_unique [OF wf_usernames [OF assms(1)] ua(1)] ua(2) by simp
  have mb: "match_user g ?b = [ub]"
    using match_user_unique [OF wf_usernames [OF assms(1)] ub(1)] ub(2) by simp
  let ?e = "(u_node ua, u_node ub)"
  let ?ok = "Success 201 \<lparr>detail = ''OK'', data = \<lparr>follower = ?a, followee = ?b\<rparr>\<rparr>"
  have first: "follow None action g =
      (?ok, if ?e \<in> set (follows g) then g else g\<lparr>follows := follows g @ [?e]\<rparr>)"
    using follow_single [OF ma mb] act by metis
  with assms(4) have r1: "r1 = ?ok"
    and g1: "g1 = (if ?e \<in> set (follows g) then g else g\<lparr>follows := follows g @ [?e]\<rparr>)"
    by simp_all
  have ma1: "match_user g1 ?a = [ua]" and mb1: "match_user g1 ?b = [ub]"
    using ma mb by (simp_all add: g1)
  have in1: "?e \<in> set (follows g1)"
    by (simp add: g1)
  have d1: "distinct (follows g1)"
    using wf_follows [OF assms(1)] by (simp add: g1)
  have second: "follow None action g1 = (?ok, g1)"
    using follow_single [OF ma1 mb1] act in1 by metis
  with assms(5) have r2: "r2 = ?ok" and g2: "g2 = g1"
    by simp_all
  have "follows_between g1 ?a ?b = [?e]"
    using follows_between_single [OF ma1 mb1] filter_eq_distinct [OF d1, of ?e] in1 by simp
  then show ?thesis
    using r1 r2 g2 by simp
qed

theorem follow_twice_one_edge_witness:
  "wf demo \<and> user_exists demo ''alice'' \<and> user_exists demo ''bob''
   \<and> fst (follow None \<lparr>follower_username = ''alice'', followee_username = ''bob''\<rparr> demo)
       = Success 201 \<lparr>detail = ''OK'', data = \<lparr>follower = ''alice'', followee = ''bob''\<rparr>\<rparr>
   \<and> follow None \<lparr>follower_username = ''alice'', followee_username = ''bob''\<rparr>
        (snd (follow None \<lparr>follower_username = ''alice'', followee_username = ''bob''\<rparr> demo))
       = (Success 201 \<lparr>detail = ''OK'', data = \<lparr>follower = ''alice'', followee = ''bob''\<rparr>\<rparr>,
          snd (follow None \<lparr>follower_username = ''alice'', followee_username = ''bob''\<rparr> demo))
   \<and> length (follows_between
        (snd (follow None \<lparr>follower_username = ''alice'', followee_username = ''bob''\<rparr> demo))
        ''alice'' ''bob'') = 1"
proof -
  let ?act = "\<lparr>follower_username = ''alice'', followee_username = ''bob''\<rparr>"
  have w: "wf demo" by code_simp
  have a: "user_exists demo ''alice''" by code_simp
  have b: "user_exists demo ''bob''" by code_simp
  have a': "user_exists demo (follower_username ?act)" using a by simp
  have b': "user_exists demo (followee_username ?act)" using b by simp
  note main = follow_twice_one_edge [OF w a' b' surjective_pairing surjective_pairing]
  have c1: "fst (follow None ?act demo)
      = Success 201 \<lparr>detail = ''OK'', data = \<lparr>follower = ''alice'', followee = ''bob''\<rparr>\<rparr>"
    using main by simp
  have c2: "fst (follow None ?act (snd (follow None ?act demo))) = fst (follow None ?act demo)"
    using main by simp
  have c3: "snd (follow None ?act (snd (follow None ?act demo))) = snd (follow None ?act demo)"
    using main by simp
  have c4: "length (follows_between (snd (follow None ?act demo)) ''alice'' ''bob'') = 1"
    using main by (simp add: c3)
  have c5: "follow None ?act (snd (follow None ?act demo))
      = (Success 201 \<lparr>detail = ''OK'', data = \<lparr>follower = ''alice'', followee = ''bob''\<rparr>\<rparr>,
         snd (follow None ?act demo))"
    using c1 c2 c3 by (simp add: prod_eq_iff)
  show ?thesis
    using w a b c1 c4 c5 by blast
qed

section \<open>Following oneself\<close>






section \<open>The handlers keep the store well-formed\<close>

lemma is_user_simps [simp]:
  "is_user (g\<lparr>follows := es\<rparr>) n = is_user g n"
  "is_user (g\<lparr>liked := es\<rparr>) n = is_user g n"
  "is_user (g\<lparr>posted := es\<rparr>) n = is_user g n"
  by (simp_all add: is_user_def)

lemma is_post_simps [simp]:
  "is_post (g\<lparr>follows := es\<rparr>) n = is_post g n"
  "is_post (g\<lparr>liked := es\<rparr>) n = is_post g n"
  "is_post (g\<lparr>posted := es\<rparr>) n = is_post g n"
  by (simp_all add: is_post_def)

lemma match_user_in_users: "u \<in> set (match_user g a) \<Longrightarrow> u \<in> set (users g) \<and> u_username u = a"
  by (simp add: match_user_def)

lemma match_post_in_posts: "p \<in> set (match_post g pid) \<Longrightarrow> p \<in> set (posts g) \<and> p_id p = pid"
  by (simp add: match_post_def)

lemma merge_rel_distinct:
  "distinct es \<Longrightarrow> distinct (snd (merge_rel ends rows es))"
proof (induction rows arbitrary: es)
  case Nil
  then show ?case by simp
next
  case (Cons r rows)
  show ?case
  proof (cases "ends r \<in> set es")
    case True
    then have "count_list es (ends r) \<noteq> 0" by (simp add: count_list_0_iff)
    then show ?thesis
      using Cons.IH [OF Cons.prems] by (simp add: Let_def split_beta)
  next
    case False
    then have c: "count_list es (ends r) = 0" by simp
    have "distinct (es @ [ends r])" using Cons.prems False by simp
    from Cons.IH [OF this] show ?thesis
      using c by (simp add: Let_def split_beta)
  qed
qed

lemma merge_rel_set:
  "set (snd (merge_rel ends rows es)) \<subseteq> set es \<union> ends ` set rows"
proof (induction rows arbitrary: es)
  case Nil
  then show ?case by simp
next
  case (Cons r rows)
  show ?case
  proof (cases "count_list es (ends r) = 0")
    case True
    then show ?thesis
      using Cons.IH [of "es @ [ends r]"] by (auto simp: Let_def split_beta)
  next
    case False
    then show ?thesis
      using Cons.IH [of es] by (auto simp: Let_def split_beta)
  qed
qed

lemma snd_follow:
  "snd (follow net action g) = g \<or>
   snd (follow net action g) =
     g\<lparr>follows := snd (merge_rel (\<lambda>(ua, ub). (u_node ua, u_node ub))
                     [(ua, ub). ua \<leftarrow> match_user g (follower_username action),
                                ub \<leftarrow> match_user g (followee_username action)] (follows g))\<rparr>"
  by (cases net)
     (auto simp: follow_def execute_write_def follow_cypher_def Let_def split_beta
           split: list.splits)

lemma snd_like_post:
  "snd (like_post net pid payload g) = g \<or>
   snd (like_post net pid payload g) =
     g\<lparr>liked := snd (merge_rel (\<lambda>(u, p). (u_node u, p_node p))
                     [(u, p). u \<leftarrow> match_user g (la_username payload),
                              p \<leftarrow> match_post g pid] (liked g))\<rparr>"
  by (cases net)
     (auto simp: like_post_def execute_write_def like_cypher_def Let_def split_beta
           split: list.splits)

lemma snd_unfollow:
  "snd (unfollow net action g) = g \<or>
   snd (unfollow net action g) =
     g\<lparr>follows := filter (\<lambda>e. e \<notin> set (follows_between g (follower_username action)
                                           (followee_username action))) (follows g)\<rparr>"
  by (cases net) (auto simp: unfollow_def execute_write_def unfollow_cypher_def Let_def)

lemma wf_follows_update:
  assumes "wf g" and "distinct es" and "\<forall>e \<in> set es. is_user g (fst e) \<and> is_user g (snd e)"
  shows "wf (g\<lparr>follows := es\<rparr>)"
  using assms by (simp add: wf_def nodes_ok_def keys_ok_def rels_ok_def)

lemma wf_liked_update:
  assumes "wf g" and "distinct es" and "\<forall>e \<in> set es. is_user g (fst e) \<and> is_post g (snd e)"
  shows "wf (g\<lparr>liked := es\<rparr>)"
  using assms by (simp add: wf_def nodes_ok_def keys_ok_def rels_ok_def)

lemma wf_follows_ends: "wf g \<Longrightarrow> e \<in> set (follows g) \<Longrightarrow> is_user g (fst e) \<and> is_user g (snd e)"
  by (simp add: wf_def rels_ok_def)

lemma wf_liked_ends: "wf g \<Longrightarrow> e \<in> set (liked g) \<Longrightarrow> is_user g (fst e) \<and> is_post g (snd e)"
  by (simp add: wf_def rels_ok_def)

lemma wf_follow:
  assumes "wf g"
  shows "wf (snd (follow net action g))"
proof -
  let ?rows = "[(ua, ub). ua \<leftarrow> match_user g (follower_username action),
                          ub \<leftarrow> match_user g (followee_username action)]"
  let ?ends = "\<lambda>(ua, ub). (u_node ua, u_node ub)"
  let ?es = "snd (merge_rel ?ends ?rows (follows g))"
  have d: "distinct ?es"
    using wf_follows [OF assms] by (rule merge_rel_distinct)
  have "is_user g (fst e) \<and> is_user g (snd e)" if "e \<in> set ?es" for e
  proof -
    from that merge_rel_set [of ?ends ?rows "follows g"]
    consider "e \<in> set (follows g)" | "e \<in> ?ends ` set ?rows" by blast
    then show ?thesis
    proof cases
      case 1
      then show ?thesis using wf_follows_ends [OF assms] by blast
    next
      case 2
      then show ?thesis
        by (auto simp: is_user_def dest!: match_user_in_users)
    qed
  qed
  then have "wf (g\<lparr>follows := ?es\<rparr>)"
    using wf_follows_update [OF assms d] by blast
  then show ?thesis
    using snd_follow [of net action g] assms by auto
qed

lemma wf_like_post:
  assumes "wf g"
  shows "wf (snd (like_post net pid payload g))"
proof -
  let ?rows = "[(u, p). u \<leftarrow> match_user g (la_username payload), p \<leftarrow> match_post g pid]"
  let ?ends = "\<lambda>(u, p). (u_node u, p_node p)"
  let ?es = "snd (merge_rel ?ends ?rows (liked g))"
  have d: "distinct ?es"
    using wf_liked [OF assms] by (rule merge_rel_distinct)
  have "is_user g (fst e) \<and> is_post g (snd e)" if "e \<in> set ?es" for e
  proof -
    from that merge_rel_set [of ?ends ?rows "liked g"]
    consider "e \<in> set (liked g)" | "e \<in> ?ends ` set ?rows" by blast
    then show ?thesis
    proof cases
      case 1
      then show ?thesis using wf_liked_ends [OF assms] by blast
    next
      case 2
      then show ?thesis
        by (auto simp: is_user_def is_post_def dest!: match_user_in_users match_post_in_posts)
    qed
  qed
  then have "wf (g\<lparr>liked := ?es\<rparr>)"
    using wf_liked_update [OF assms d] by blast
  then show ?thesis
    using snd_like_post [of net pid payload g] assms by auto
qed

lemma wf_unfollow:
  assumes "wf g"
  shows "wf (snd (unfollow net action g))"
proof -
  let ?es = "filter (\<lambda>e. e \<notin> set (follows_between g (follower_username action)
                                     (followee_username action))) (follows g)"
  have "distinct ?es"
    using wf_follows [OF assms] by simp
  moreover have "\<forall>e \<in> set ?es. is_user g (fst e) \<and> is_user g (snd e)"
    using wf_follows_ends [OF assms] by simp
  ultimately have "wf (g\<lparr>follows := ?es\<rparr>)"
    using wf_follows_update [OF assms] by blast
  then show ?thesis
    using snd_unfollow [of net action g] assms by auto
qed

lemma wf_add_user:
  assumes "wf g" and "name \<notin> set (map u_username (users g))" and "u_node u = next_node g"
    and "u_username u = name"
  shows "wf (g\<lparr>users := users g @ [u], next_node := Suc (next_node g)\<rparr>)"
proof -
  let ?g = "g\<lparr>users := users g @ [u], next_node := Suc (next_node g)\<rparr>"
  have below: "\<forall>n \<in> set (map u_node (users g) @ map p_node (posts g)). n < next_node g"
    and dist: "distinct (map u_node (users g) @ map p_node (posts g))"
    using assms(1) by (simp_all add: wf_def nodes_ok_def)
  have fresh: "next_node g \<notin> set (map u_node (users g) @ map p_node (posts g))"
    using below by blast
  have n: "nodes_ok ?g"
    unfolding nodes_ok_def using below dist fresh assms(3) by (auto simp: less_Suc_eq)
  have k: "keys_ok ?g"
    using assms(1,2,4) by (simp add: wf_def keys_ok_def)
  have mono: "is_user g m \<Longrightarrow> is_user ?g m" for m
    by (simp add: is_user_def)
  have same: "is_post ?g m = is_post g m" for m
    by (simp add: is_post_def)
  have r: "rels_ok ?g"
    using assms(1) mono unfolding wf_def rels_ok_def same by simp
  show ?thesis
    using n k r by (simp add: wf_def)
qed

lemma wf_create_user:
  assumes "wf g"
  shows "wf (snd (create_user net uid t payload g))"
proof (cases "net = None \<and> uc_username payload \<notin> set (map u_username (users g))")
  case True
  then have "snd (create_user net uid t payload g) =
      g\<lparr>users := users g @ [\<lparr>u_node = next_node g, u_id = uid, u_username = uc_username payload,
                             u_name = uc_name payload, u_bio = uc_bio payload, u_created_at = t\<rparr>],
        next_node := Suc (next_node g)\<rparr>"
    using create_user_fresh [of g payload uid t] by (simp add: user_exists_def)
  then show ?thesis
    using wf_add_user [OF assms, of "uc_username payload"] True by simp
next
  case False
  have "username_unique g"
    using assms by (simp add: wf_def keys_ok_def)
  with False have "snd (create_user net uid t payload g) = g"
    by (cases net) (auto simp: create_user_def execute_write_def create_user_cypher_def)
  then show ?thesis using assms by simp
qed

lemma wf_add_post:
  assumes "wf g" and "is_user g a" and "pid \<notin> set (map p_id (posts g))"
    and "p_node p = next_node g" and "p_id p = pid"
  shows "wf (g\<lparr>posts := posts g @ [p], posted := posted g @ [(a, p_node p)],
              next_node := Suc (next_node g)\<rparr>)"
proof -
  let ?g = "g\<lparr>posts := posts g @ [p], posted := posted g @ [(a, p_node p)],
              next_node := Suc (next_node g)\<rparr>"
  have below: "\<forall>n \<in> set (map u_node (users g) @ map p_node (posts g)). n < next_node g"
    and dist: "distinct (map u_node (users g) @ map p_node (posts g))"
    using assms(1) by (simp_all add: wf_def nodes_ok_def)
  have fresh: "next_node g \<notin> set (map u_node (users g) @ map p_node (posts g))"
    using below by blast
  have n: "nodes_ok ?g"
    unfolding nodes_ok_def using below dist fresh assms(4) by (auto simp: less_Suc_eq)
  have k: "keys_ok ?g"
    using assms(1,3,5) by (simp add: wf_def keys_ok_def)
  have rels: "rels_ok g"
    using assms(1) by (simp add: wf_def)
  have same: "is_user ?g m = is_user g m" for m
    by (simp add: is_user_def)
  have mono: "is_post g m \<Longrightarrow> is_post ?g m" for m
    by (simp add: is_post_def)
  have new: "is_post ?g (p_node p)"
    by (simp add: is_post_def)
  have ends: "\<forall>e \<in> set (posted g). is_post g (snd e)"
    using rels by (simp add: rels_ok_def)
  have "next_node g \<notin> snd ` set (posted g)"
  proof
    assume "next_node g \<in> snd ` set (posted g)"
    then have "is_post g (next_node g)" using ends by auto
    then show False using fresh by (simp add: is_post_def)
  qed
  then have d: "distinct (map snd (posted ?g))"
    using rels assms(4) by (simp add: rels_ok_def)
  have every: "\<forall>q \<in> set (posts ?g). p_node q \<in> set (map snd (posted ?g))"
    using rels by (auto simp: rels_ok_def)
  have r: "rels_ok ?g"
    unfolding rels_ok_def same
    using rels d every mono new assms(2) by (auto simp: rels_ok_def)
  show ?thesis
    using n k r by (simp add: wf_def)
qed

lemma wf_create_posts:
  "wf g \<Longrightarrow> \<forall>a \<in> set as. is_user g (u_node a) \<Longrightarrow>
   create_posts pid content t as g = Inr (recs, g') \<Longrightarrow> wf g'"
proof (induction as arbitrary: g recs g')
  case Nil
  then show ?case by simp
next
  case (Cons a as)
  let ?p = "\<lparr>p_node = next_node g, p_id = pid, p_content = content, p_created_at = t\<rparr>"
  let ?g1 = "g\<lparr>posts := posts g @ [?p], posted := posted g @ [(u_node a, p_node ?p)],
               next_node := Suc (next_node g)\<rparr>"
  have uq: "post_id_unique g"
    using Cons.prems(1) by (simp add: wf_def keys_ok_def)
  have free: "pid \<notin> set (map p_id (posts g))"
    using Cons.prems(3) uq by (auto split: if_splits)
  then obtain recs1 where rest: "create_posts pid content t as ?g1 = Inr (recs1, g')"
    using Cons.prems(3) uq by (auto simp: Let_def split: sum.splits)
  have w1: "wf ?g1"
    using wf_add_post [OF Cons.prems(1) _ free, of "u_node a" ?p] Cons.prems(2) by simp
  have "\<forall>b \<in> set as. is_user ?g1 (u_node b)"
    using Cons.prems(2) by (simp add: is_user_def)
  from Cons.IH [OF w1 this rest] show ?case .
qed

lemma wf_create_post:
  assumes "wf g"
  shows "wf (snd (create_post net pid t payload g))"
proof (cases net)
  case (Some e)
  then show ?thesis using assms by (simp add: create_post_def execute_write_def)
next
  case None
  let ?as = "match_user g (pc_author_username payload)"
  show ?thesis
  proof (cases "create_posts pid (pc_content payload) t ?as g")
    case (Inl e)
    then show ?thesis
      using assms None by (simp add: create_post_def execute_write_def create_post_cypher_def)
  next
    case (Inr res)
    obtain recs g' where res: "res = (recs, g')" by (cases res)
    have "\<forall>a \<in> set ?as. is_user g (u_node a)"
      by (auto simp: is_user_def dest!: match_user_in_users)
    from wf_create_posts [OF assms this Inr [unfolded res]] have "wf g'" .
    moreover have "snd (create_post net pid t payload g) = g'"
      using None Inr res
      by (simp add: create_post_def execute_write_def create_post_cypher_def split: option.splits)
    ultimately show ?thesis by simp
  qed
qed

lemma wf_started: "wf (empty_graph\<lparr>username_unique := True, post_id_unique := True\<rparr>)"
  by (simp add: wf_def nodes_ok_def keys_ok_def rels_ok_def empty_graph_def)

lemma startup_empty_graph:
  assumes "startup n1 n2 empty_graph = Inr g"
  shows "g = empty_graph\<lparr>username_unique := True, post_id_unique := True\<rparr>"
  using assms
  by (auto simp: startup_def execute_write_def constrain_username_def constrain_post_id_def
      empty_graph_def split: option.splits)

lemma startup_again:
  assumes "wf g" and "startup n1 n2 g = Inr g'"
  shows "g' = g"
proof -
  have "username_unique g" "post_id_unique g"
    using assms(1) by (simp_all add: wf_def keys_ok_def)
  then show ?thesis
    using assms(2)
    by (auto simp: startup_def execute_write_def constrain_username_def constrain_post_id_def
        split: option.splits)
qed

text \<open>Every store the handlers make of an empty one is well-formed.\<close>

lemma reachable_wf: "reachable g \<Longrightarrow> wf g"
proof (induction rule: reachable.induct)
  case (started n1 n2 g)
  then show ?case using startup_empty_graph wf_started by metis
next
  case (restarted g n1 n2 g')
  then show ?case using startup_again by metis
next
  case (created_user g net uid t payload)
  then show ?case by (simp add: wf_create_user)
next
  case (followed g net action)
  then show ?case by (simp add: wf_follow)
next
  case (unfollowed g net action)
  then show ?case by (simp add: wf_unfollow)
next
  case (created_post g net pid t post)
  then show ?case by (simp add: wf_create_post)
next
  case (liked_post g net pid like)
  then show ?case by (simp add: wf_like_post)
qed

section \<open>Likes\<close>

lemma concat_map_if_unique:
  "distinct (map f xs) \<Longrightarrow> x \<in> set xs \<Longrightarrow>
   concat (map (\<lambda>y. if f y = f x then F y else []) xs) = F x"
proof (induction xs)
  case Nil
  then show ?case by simp
next
  case (Cons y ys)
  show ?case
  proof (cases "y = x")
    case True
    with Cons.prems have "f x \<notin> f ` set ys" by simp
    then have "\<forall>z \<in> set ys. f z \<noteq> f x" by (metis imageI)
    then have "concat (map (\<lambda>z. if f z = f x then F z else []) ys) = []"
      by (induction ys) simp_all
    with True show ?thesis by simp
  next
    case False
    with Cons.prems have "x \<in> set ys" by simp
    moreover from this Cons.prems have "f y \<noteq> f x" by force
    ultimately show ?thesis using Cons by simp
  qed
qed

lemma wf_posted_edge:
  assumes "wf g" and "p \<in> set (posts g)"
  obtains e a where "e \<in> set (posted g)" and "snd e = p_node p" and "a \<in> set (users g)"
    and "u_node a = fst e"
proof -
  from assms have "p_node p \<in> set (map snd (posted g))"
    by (simp add: wf_def rels_ok_def)
  then obtain e where e: "e \<in> set (posted g)" "snd e = p_node p" by auto
  with assms(1) have "is_user g (fst e)"
    by (simp add: wf_def rels_ok_def)
  then obtain a where "a \<in> set (users g)" "u_node a = fst e"
    by (auto simp: is_user_def)
  with e that show thesis by blast
qed

lemma wf_user_nodes: "wf g \<Longrightarrow> distinct (map u_node (users g))"
  by (simp add: wf_def nodes_ok_def)

lemma wf_posted_targets: "wf g \<Longrightarrow> distinct (map snd (posted g))"
  by (simp add: wf_def rels_ok_def)

lemma user_at_unique:
  "distinct (map u_node (users g)) \<Longrightarrow> a \<in> set (users g) \<Longrightarrow> user_at g (u_node a) = [a]"
  unfolding user_at_def by (rule filter_key_unique)

lemma get_post_rows:
  assumes "wf g" and "p \<in> set (posts g)"
  obtains a where "a \<in> set (users g)" and "(u_node a, p_node p) \<in> set (posted g)"
    and "[(q, b). q \<leftarrow> match_post g (p_id p), e \<leftarrow> posted g, snd e = p_node q,
                  b \<leftarrow> user_at g (fst e)] = [(p, a)]"
proof -
  from assms obtain e a where e: "e \<in> set (posted g)" "snd e = p_node p"
    and a: "a \<in> set (users g)" "u_node a = fst e"
    by (rule wf_posted_edge)
  have mp: "match_post g (p_id p) = [p]"
    using match_post_unique [OF wf_post_ids [OF assms(1)] assms(2)] .
  have ua: "user_at g (fst e) = [a]"
    using user_at_unique [OF wf_user_nodes [OF assms(1)] a(1)] a(2) by simp
  have "concat (map (\<lambda>e'. if snd e' = snd e then map (Pair p) (user_at g (fst e')) else [])
                  (posted g))
        = map (Pair p) (user_at g (fst e))"
    using wf_posted_targets [OF assms(1)] e(1) by (rule concat_map_if_unique)
  then have "[(q, b). q \<leftarrow> match_post g (p_id p), e \<leftarrow> posted g, snd e = p_node q,
                      b \<leftarrow> user_at g (fst e)] = [(p, a)]"
    by (simp add: mp ua e(2))
  moreover have "(u_node a, p_node p) \<in> set (posted g)"
    using e a(2) by (metis prod.collapse)
  ultimately show thesis using that a(1) by blast
qed

lemma get_post_single:
  assumes "wf g" and "p \<in> set (posts g)"
  obtains a where "a \<in> set (users g)" and "(u_node a, p_node p) \<in> set (posted g)"
    and "get_post None (p_id p) g =
           Success 200 \<lparr>pv_id = p_id p, pv_author_username = u_username a, pv_content = p_content p,
                         pv_created_at = p_created_at p,
                         likes = length (liked_by g (p_node p))\<rparr>"
proof -
  from assms obtain a where a: "a \<in> set (users g)" "(u_node a, p_node p) \<in> set (posted g)"
    and rows: "[(q, b). q \<leftarrow> match_post g (p_id p), e \<leftarrow> posted g, snd e = p_node q,
                        b \<leftarrow> user_at g (fst e)] = [(p, a)]"
    by (rule get_post_rows)
  have "get_post None (p_id p) g =
      Success 200 \<lparr>pv_id = p_id p, pv_author_username = u_username a, pv_content = p_content p,
                    pv_created_at = p_created_at p, likes = length (liked_by g (p_node p))\<rparr>"
    unfolding get_post_def execute_read_def get_post_cypher_def rows
    by (simp add: single_or_none_def post_key_def)
  with a that show thesis by blast
qed

lemma distinct_fst_liked_by: "distinct (liked g) \<Longrightarrow> distinct (map fst (liked_by g n))"
  unfolding liked_by_def distinct_map
  by (auto simp: inj_on_def prod_eq_iff)

lemma likes_count:
  assumes "wf g" and "p \<in> set (posts g)"
  shows "length (liked_by g (p_node p)) = card (likers g (p_id p))"
proof -
  have mp: "match_post g (p_id p) = [p]"
    using match_post_unique [OF wf_post_ids [OF assms(1)] assms(2)] .
  have "card (likers g (p_id p)) = card (set (map fst (liked_by g (p_node p))))"
    by (simp add: likers_def mp)
  also have "\<dots> = length (map fst (liked_by g (p_node p)))"
    using distinct_fst_liked_by [OF wf_liked [OF assms(1)]] by (rule distinct_card)
  finally show ?thesis by simp
qed

lemma get_post_likes:
  assumes "wf g" and "post_exists g pid"
  shows "\<exists>view. get_post None pid g = Success 200 view \<and> pv_id view = pid
           \<and> likes view = card (likers g pid)"
proof -
  from assms(2) obtain p where p: "p \<in> set (posts g)" "p_id p = pid"
    by (rule post_exists_obtain)
  from assms(1) p(1) obtain a where "a \<in> set (users g)"
    and "(u_node a, p_node p) \<in> set (posted g)"
    and "get_post None (p_id p) g =
       Success 200 \<lparr>pv_id = p_id p, pv_author_username = u_username a, pv_content = p_content p,
                     pv_created_at = p_created_at p, likes = length (liked_by g (p_node p))\<rparr>"
    by (rule get_post_single)
  then show ?thesis
    using likes_count [OF assms(1) p(1)] p(2) by simp
qed

lemma like_single:
  assumes "match_user g username = [u]" and "match_post g pid = [p]"
    and that: "la_username payload = username"
  shows "like_post None pid payload g =
           (Success 200 \<lparr>detail = ''liked'', data = \<lparr>lr_username = username, lr_post_id = pid\<rparr>\<rparr>,
            if (u_node u, p_node p) \<in> set (liked g) then g
            else g\<lparr>liked := liked g @ [(u_node u, p_node p)]\<rparr>)"
proof -
  have "u \<in> set (match_user g username)" and "p \<in> set (match_post g pid)"
    using assms by simp_all
  then have names: "u_username u = username" "p_id p = pid"
    by (simp_all add: match_user_def match_post_def)
  show ?thesis
  proof (cases "(u_node u, p_node p) \<in> set (liked g)")
    case True
    then obtain rest where
      "replicate (count_list (liked g) (u_node u, p_node p)) (u, p) = (u, p) # rest"
      using replicate_count_Cons [OF True, of "(u, p)"] by auto
    with True show ?thesis
      by (simp add: like_post_def execute_write_def like_cypher_def assms merge_rel_single
          names del: merge_rel.simps)
  next
    case False
    then show ?thesis
      by (simp add: like_post_def execute_write_def like_cypher_def assms merge_rel_single
          names del: merge_rel.simps)
  qed
qed

lemma liked_between_single:
  assumes "match_user g username = [u]" and "match_post g pid = [p]"
  shows "liked_between g username pid = filter ((=) (u_node u, p_node p)) (liked g)"
  unfolding liked_between_def assms
  by (rule filter_cong) auto

text \<open>
  C3. In a store the handlers have kept, get-post on an existing post answers 200 and
  its \<open>likes\<close> is the number of distinct Users with a LIKED relationship to the post.
  When an existing user likes the post twice, both calls answer 200, the second changes
  nothing, exactly one LIKED relationship joins the user and the post, and get-post
  reports the same count after the second like as after the first.
\<close>

theorem likes_count_distinct_users:
  assumes "wf g" and "post_exists g pid"
  shows "(\<exists>view. get_post None pid g = Success 200 view \<and> pv_id view = pid
            \<and> likes view = card (likers g pid))
       \<and> (user_exists g (la_username payload) \<longrightarrow>
            fst (like_post None pid payload g)
              = Success 200 \<lparr>detail = ''liked'',
                              data = \<lparr>lr_username = la_username payload, lr_post_id = pid\<rparr>\<rparr>
            \<and> like_post None pid payload (snd (like_post None pid payload g))
              = like_post None pid payload g
            \<and> length (liked_between (snd (like_post None pid payload g)) (la_username payload) pid) = 1
            \<and> (\<exists>view. get_post None pid (snd (like_post None pid payload g)) = Success 200 view
                  \<and> likes view = card (likers (snd (like_post None pid payload g)) pid)))"
proof -
  have part1: "\<exists>view. get_post None pid g = Success 200 view \<and> pv_id view = pid
      \<and> likes view = card (likers g pid)"
    using assms by (rule get_post_likes)
  have part2: "fst (like_post None pid payload g)
        = Success 200 \<lparr>detail = ''liked'',
                        data = \<lparr>lr_username = la_username payload, lr_post_id = pid\<rparr>\<rparr>
      \<and> like_post None pid payload (snd (like_post None pid payload g))
        = like_post None pid payload g
      \<and> length (liked_between (snd (like_post None pid payload g)) (la_username payload) pid) = 1
      \<and> (\<exists>view. get_post None pid (snd (like_post None pid payload g)) = Success 200 view
            \<and> likes view = card (likers (snd (like_post None pid payload g)) pid))"
    if ex: "user_exists g (la_username payload)"
  proof -
    let ?name = "la_username payload"
    let ?ok = "Success 200 \<lparr>detail = ''liked'', data = \<lparr>lr_username = ?name, lr_post_id = pid\<rparr>\<rparr>"
    from ex obtain u where u: "u \<in> set (users g)" "u_username u = ?name"
      by (rule user_exists_obtain)
    from assms(2) obtain p where p: "p \<in> set (posts g)" "p_id p = pid"
      by (rule post_exists_obtain)
    have mu: "match_user g ?name = [u]"
      using match_user_unique [OF wf_usernames [OF assms(1)] u(1)] u(2) by simp
    have mp: "match_post g pid = [p]"
      using match_post_unique [OF wf_post_ids [OF assms(1)] p(1)] p(2) by simp
    let ?e = "(u_node u, p_node p)"
    define g1 where "g1 = (if ?e \<in> set (liked g) then g else g\<lparr>liked := liked g @ [?e]\<rparr>)"
    have first: "like_post None pid payload g = (?ok, g1)"
      unfolding g1_def by (rule like_single [OF mu mp refl])
    have mu1: "match_user g1 ?name = [u]" and mp1: "match_post g1 pid = [p]"
      using mu mp by (simp_all add: g1_def match_user_def match_post_def)
    have in1: "?e \<in> set (liked g1)"
      by (simp add: g1_def)
    have second: "like_post None pid payload g1 = (?ok, g1)"
      using like_single [OF mu1 mp1 refl] in1 by simp
    have w1: "wf g1"
      using wf_like_post [OF assms(1), of None pid payload] first by simp
    have one: "liked_between g1 ?name pid = [?e]"
      using liked_between_single [OF mu1 mp1] filter_eq_distinct [OF wf_liked [OF w1], of ?e] in1
      by simp
    have pe1: "post_exists g1 pid"
      using assms(2) by (simp add: g1_def post_exists_def)
    have view1: "\<exists>view. get_post None pid g1 = Success 200 view
        \<and> likes view = card (likers g1 pid)"
      using get_post_likes [OF w1 pe1] by blast
    show ?thesis
      using first second one view1 by simp
  qed
  show ?thesis
    using part1 part2 by blast
qed

theorem likes_count_distinct_users_witness:
  "wf demo \<and> post_exists demo ''p1'' \<and> user_exists demo ''bob''
   \<and> get_post None ''p1'' demo
       = Success 200 \<lparr>pv_id = ''p1'', pv_author_username = ''alice'', pv_content = ''hello world'',
                       pv_created_at = ''2024-01-02T00:00:00'', likes = 0\<rparr>
   \<and> card (likers demo ''p1'') = 0
   \<and> like_post None ''p1'' \<lparr>la_username = ''bob'', la_post_id = ''p1''\<rparr> demo
       = (Success 200 \<lparr>detail = ''liked'', data = \<lparr>lr_username = ''bob'', lr_post_id = ''p1''\<rparr>\<rparr>,
          demo\<lparr>liked := [(1, 2)]\<rparr>)
   \<and> like_post None ''p1'' \<lparr>la_username = ''bob'', la_post_id = ''p1''\<rparr> (demo\<lparr>liked := [(1, 2)]\<rparr>)
       = (Success 200 \<lparr>detail = ''liked'', data = \<lparr>lr_username = ''bob'', lr_post_id = ''p1''\<rparr>\<rparr>,
          demo\<lparr>liked := [(1, 2)]\<rparr>)
   \<and> length (liked_between (demo\<lparr>liked := [(1, 2)]\<rparr>) ''bob'' ''p1'') = 1
   \<and> card (likers (demo\<lparr>liked := [(1, 2)]\<rparr>) ''p1'') = 1
   \<and> (\<exists>view. get_post None ''p1'' (demo\<lparr>liked := [(1, 2)]\<rparr>) = Success 200 view \<and> likes view = 1)"
proof -
  let ?pay = "\<lparr>la_username = ''bob'', la_post_id = ''p1''\<rparr>"
  let ?g1 = "demo\<lparr>liked := [(1, 2)]\<rparr>"
  have w: "wf demo" by code_simp
  have p: "post_exists demo ''p1''" by code_simp
  have u: "user_exists demo ''bob''" by code_simp
  have v0: "get_post None ''p1'' demo
       = Success 200 \<lparr>pv_id = ''p1'', pv_author_username = ''alice'', pv_content = ''hello world'',
                       pv_created_at = ''2024-01-02T00:00:00'', likes = 0\<rparr>" by code_simp
  have c0: "card (likers demo ''p1'') = 0" by code_simp
  have l1: "like_post None ''p1'' ?pay demo
       = (Success 200 \<lparr>detail = ''liked'', data = \<lparr>lr_username = ''bob'', lr_post_id = ''p1''\<rparr>\<rparr>, ?g1)"
    by code_simp
  have c1: "card (likers ?g1 ''p1'') = 1" by code_simp
  note main = likes_count_distinct_users [OF w p, of ?pay]
  have l2: "like_post None ''p1'' ?pay ?g1
       = (Success 200 \<lparr>detail = ''liked'', data = \<lparr>lr_username = ''bob'', lr_post_id = ''p1''\<rparr>\<rparr>, ?g1)"
    using main u by (simp add: l1)
  have b1: "length (liked_between ?g1 ''bob'' ''p1'') = 1"
    using main u by (simp add: l1)
  have v1: "\<exists>view. get_post None ''p1'' ?g1 = Success 200 view \<and> likes view = 1"
    using main u c1 by (simp add: l1)
  show ?thesis
    using w p u v0 c0 l1 l2 b1 c1 v1 by blast
qed

section \<open>The two example stores are stores the handlers make\<close>

lemma demo_scenario:
  "snd (create_post None ''p1'' ''2024-01-02T00:00:00''
          \<lparr>pc_author_username = ''alice'', pc_content = ''hello world''\<rparr>
          (snd (follow None \<lparr>follower_username = ''bob'', followee_username = ''alice''\<rparr>
             (snd (create_user None ''id-b'' ''2024-01-01T00:00:01''
                     \<lparr>uc_username = ''bob'', uc_name = Some ''Bob'', uc_bio = None\<rparr>
                     (snd (create_user None ''id-a'' ''2024-01-01T00:00:00''
                             \<lparr>uc_username = ''alice'', uc_name = None, uc_bio = None\<rparr>
                             (empty_graph\<lparr>username_unique := True, post_id_unique := True\<rparr>))))))))
   = demo"
  by code_simp

lemma demo_reachable: "reachable demo"
proof -
  have "reachable (empty_graph\<lparr>username_unique := True, post_id_unique := True\<rparr>)"
    by (rule reachable.started [OF startup_empty])
  then have "reachable (snd (create_user None ''id-a'' ''2024-01-01T00:00:00''
      \<lparr>uc_username = ''alice'', uc_name = None, uc_bio = None\<rparr>
      (empty_graph\<lparr>username_unique := True, post_id_unique := True\<rparr>)))"
    by (rule reachable.created_user)
  then have "reachable (snd (create_user None ''id-b'' ''2024-01-01T00:00:01''
      \<lparr>uc_username = ''bob'', uc_name = Some ''Bob'', uc_bio = None\<rparr>
      (snd (create_user None ''id-a'' ''2024-01-01T00:00:00''
        \<lparr>uc_username = ''alice'', uc_name = None, uc_bio = None\<rparr>
        (empty_graph\<lparr>username_unique := True, post_id_unique := True\<rparr>)))))"
    by (rule reachable.created_user)
  then have "reachable (snd (follow None \<lparr>follower_username = ''bob'', followee_username = ''alice''\<rparr>
      (snd (create_user None ''id-b'' ''2024-01-01T00:00:01''
        \<lparr>uc_username = ''bob'', uc_name = Some ''Bob'', uc_bio = None\<rparr>
        (snd (create_user None ''id-a'' ''2024-01-01T00:00:00''
          \<lparr>uc_username = ''alice'', uc_name = None, uc_bio = None\<rparr>
          (empty_graph\<lparr>username_unique := True, post_id_unique := True\<rparr>)))))))"
    by (rule reachable.followed)
  then have "reachable (snd (create_post None ''p1'' ''2024-01-02T00:00:00''
      \<lparr>pc_author_username = ''alice'', pc_content = ''hello world''\<rparr>
      (snd (follow None \<lparr>follower_username = ''bob'', followee_username = ''alice''\<rparr>
        (snd (create_user None ''id-b'' ''2024-01-01T00:00:01''
          \<lparr>uc_username = ''bob'', uc_name = Some ''Bob'', uc_bio = None\<rparr>
          (snd (create_user None ''id-a'' ''2024-01-01T00:00:00''
            \<lparr>uc_username = ''alice'', uc_name = None, uc_bio = None\<rparr>
            (empty_graph\<lparr>username_unique := True, post_id_unique := True\<rparr>)))))))))"
    by (rule reachable.created_post)
  then show ?thesis
    by (simp only: demo_scenario)
qed

text \<open>
  The scenario of the specification: after alice and bob sign up, bob follows alice and
  alice posts, bob's feed is that one post and alice has one follower and one post.
\<close>

lemma end_to_end:
  "get_feed None ''bob'' None demo
     = Success 200 [\<lparr>po_id = ''p1'', po_author_username = ''alice'', po_content = ''hello world'',
                      po_created_at = ''2024-01-02T00:00:00''\<rparr>]
   \<and> get_user None ''alice'' demo
     = Success 200 \<lparr>up_id = ''id-a'', up_username = ''alice'', up_name = None, up_bio = None,
                     following_count = 0, followers_count = 1, posts_count = 1\<rparr>"
  by code_simp

end
